theory Spec2Isabelle
  imports Main
begin

section \<open>Go values used by pop3extra.go\<close>

text \<open>
  Go strings are byte sequences and are modelled as \<open>string\<close> (a list of 8-bit
  characters). Go's \<open>int\<close> is modelled as \<open>int\<close>; the only arithmetic the file
  performs on it (\<open>num - 1\<close>, \<open>i--\<close>, \<open>i++\<close>, \<open>num - i\<close>) stays between \<open>-1\<close>
  and a slice length, so no wrap-around can occur. A slice is a list; the \<open>nil\<close> slice and
  the empty slice are both \<open>[]\<close>.

  A Go function returns its whole result tuple, also when the error is not \<open>nil\<close>:
  the error is an \<open>error option\<close> component of the result (\<open>None\<close> is \<open>nil\<close>).
  A run-time panic is the \<open>Inl\<close> branch of a sum.
\<close>

datatype num_err = ErrSyntax | ErrRange

datatype error =
    ClientError string            \<comment> \<open>an error value made by the underlying client\<close>
  | ParserError string            \<comment> \<open>an error value made by parsemail\<close>
  | NumError string string num_err  \<comment> \<open>\<open>*strconv.NumError{Func, Num, Err}\<close>\<close>
  | Errorf string                 \<comment> \<open>\<open>fmt.Errorf\<close> of a constant message\<close>

datatype panic = IndexOutOfRange int nat  \<comment> \<open>index and length\<close>

text \<open>\<open>xs[i]\<close> on a slice: a run-time panic when the index is out of range.\<close>

definition index :: "'a list \<Rightarrow> int \<Rightarrow> panic + 'a" where
  "index xs i =
     (if 0 \<le> i \<and> i < int (length xs) then Inr (xs ! nat i)
      else Inl (IndexOutOfRange i (length xs)))"

text \<open>\<open>xs[i] = v\<close> on a slice.\<close>

definition store :: "'a list \<Rightarrow> int \<Rightarrow> 'a \<Rightarrow> panic + 'a list" where
  "store xs i v =
     (if 0 \<le> i \<and> i < int (length xs) then Inr (xs[nat i := v])
      else Inl (IndexOutOfRange i (length xs)))"

definition CRLF :: string where
  "CRLF = [CHR 0x0D, CHR 0x0A]"

subsection \<open>strings.Fields\<close>

text \<open>
  \<open>strings.Fields\<close> splits a string around each run of white space as defined by
  \<open>unicode.IsSpace\<close> and returns the non-empty pieces; a string with white space
  only gives the empty slice. The white-space runes are
  U+0009..U+000D, U+0020, U+0085, U+00A0, U+1680, U+2000..U+200A, U+2028, U+2029, U+202F,
  U+205F and U+3000. \<open>space_width s\<close> is the number of bytes of the UTF-8 encoding of
  a white-space rune at the head of \<open>s\<close>, and 0 when \<open>s\<close> does not start with one.
  The lead bytes of these encodings are never continuation bytes, so scanning byte by byte
  splits at the same places as Go's rune by rune scan.
\<close>

definition space_width :: "string \<Rightarrow> nat" where
  "space_width s =
     (case map of_char (take 3 s) :: int list of
        [] \<Rightarrow> 0
      | b0 # r \<Rightarrow>
          if (9 \<le> b0 \<and> b0 \<le> 13) \<or> b0 = 32 then 1
          else (case r of
                  [] \<Rightarrow> 0
                | b1 # r1 \<Rightarrow>
                    if b0 = 0xC2 \<and> (b1 = 0x85 \<or> b1 = 0xA0) then 2
                    else (case r1 of
                            [] \<Rightarrow> 0
                          | b2 # _ \<Rightarrow>
                              if (b0 = 0xE1 \<and> b1 = 0x9A \<and> b2 = 0x80)
                                 \<or> (b0 = 0xE2 \<and> b1 = 0x80 \<and>
                                      ((0x80 \<le> b2 \<and> b2 \<le> 0x8A) \<or> b2 = 0xA8 \<or> b2 = 0xA9 \<or> b2 = 0xAF))
                                 \<or> (b0 = 0xE2 \<and> b1 = 0x81 \<and> b2 = 0x9F)
                                 \<or> (b0 = 0xE3 \<and> b1 = 0x80 \<and> b2 = 0x80)
                              then 3 else 0)))"

text \<open>\<open>cur\<close> is the field being read, empty between fields.\<close>

function Fields_from :: "string \<Rightarrow> string \<Rightarrow> string list" where
  "Fields_from cur [] = (if cur = [] then [] else [cur])"
| "Fields_from cur (b # bs) =
     (let w = space_width (b # bs) in
      if w = 0 then Fields_from (cur @ [b]) bs
      else (if cur = [] then [] else [cur]) @ Fields_from [] (drop (w - 1) bs))"
  by pat_completeness auto
termination
  by (relation "measure (\<lambda>(cur, s). length s)") auto

definition Fields :: "string \<Rightarrow> string list" where
  "Fields s = Fields_from [] s"

subsection \<open>strings.Join\<close>

fun Join :: "string list \<Rightarrow> string \<Rightarrow> string" where
  "Join [] sep = []"
| "Join [a] sep = a"
| "Join (a # b # rest) sep = a @ sep @ Join (b # rest) sep"

subsection \<open>strconv.Atoi\<close>

text \<open>
  \<open>strconv.Atoi\<close> accepts an optional sign followed by one or more decimal digits
  whose value fits Go's \<open>int\<close>, here of 64 bits. It reads the digits from the left into an
  unsigned 64-bit accumulator: a byte that is no digit is a syntax error, an accumulator
  that would pass \<open>2^64 - 1\<close> a range error, whichever comes first; a magnitude that does
  not fit the signed range is a range error, returned with the nearest bound.
\<close>

definition intSize :: nat where
  "intSize = 64"

definition maxUint64 :: int where
  "maxUint64 = 2 ^ 64 - 1"

fun ParseUint_loop :: "int \<Rightarrow> string \<Rightarrow> num_err + int" where
  "ParseUint_loop n [] = Inr n"
| "ParseUint_loop n (c # cs) =
     (let b = (of_char c :: int) in
      if b < 48 \<or> 57 < b then Inl ErrSyntax
      else if n \<ge> maxUint64 div 10 + 1 then Inl ErrRange
      else if n * 10 + (b - 48) > maxUint64 then Inl ErrRange
      else ParseUint_loop (n * 10 + (b - 48)) cs)"

definition Atoi :: "string \<Rightarrow> int \<times> error option" where
  "Atoi s =
     (let neg = (s \<noteq> [] \<and> hd s = CHR ''-'');
          signed = (s \<noteq> [] \<and> (hd s = CHR ''+'' \<or> hd s = CHR ''-''));
          ds = (if signed then tl s else s);
          cutoff = (2 :: int) ^ (intSize - 1)
      in if ds = [] then (0, Some (NumError ''Atoi'' s ErrSyntax))
         else (case ParseUint_loop 0 ds of
                 Inl ErrSyntax \<Rightarrow> (0, Some (NumError ''Atoi'' s ErrSyntax))
               | Inl ErrRange \<Rightarrow>
                   (if neg then - cutoff else cutoff - 1, Some (NumError ''Atoi'' s ErrRange))
               | Inr un \<Rightarrow>
                   if \<not> neg \<and> un \<ge> cutoff then (cutoff - 1, Some (NumError ''Atoi'' s ErrRange))
                   else if neg \<and> un > cutoff then (- cutoff, Some (NumError ''Atoi'' s ErrRange))
                   else (if neg then - un else un, None)))"

section \<open>What pop3extra.go is given\<close>

text \<open>
  The methods \<open>Cmd\<close>, \<open>ReadLines\<close> and \<open>ListAll\<close> of \<open>Client\<close> belong to the
  underlying client and the functions of \<open>parsemail\<close> to another package. They are
  parameters of the model. \<open>'c\<close> is everything a call on the client can change or depend
  on: the client, its connection and the server behind it. A method takes this state and
  returns its Go result tuple with the state after the call. \<open>Cmd\<close> takes the format
  string and the arguments it is called with. These calls are taken to return.
\<close>

record 'c client =
  Cmd :: "string \<Rightarrow> int list \<Rightarrow> 'c \<Rightarrow> (string \<times> error option) \<times> 'c"
  ReadLines :: "'c \<Rightarrow> (string list \<times> error option) \<times> 'c"
  ListAll :: "'c \<Rightarrow> (int list \<times> int list \<times> error option) \<times> 'c"

text \<open>
  \<open>'e\<close> is \<open>parsemail.Email\<close>; \<open>zeroEmail\<close> is its zero value, the value of an
  \<open>Email\<close> variable or field that was never assigned.
\<close>

record 'e parsemail =
  ParseHeader :: "string \<Rightarrow> 'e \<times> error option"
  zeroEmail :: 'e

record 'e MailItem =
  Email :: 'e
  Size :: int
  MsgNum :: int

section \<open>The functions of pop3extra.go\<close>

text \<open>
  \<open>UIDL\<close>, \<open>UidlAll\<close>, \<open>TOP\<close>, \<open>GetInfo\<close> and \<open>GetList\<close>. The two dialling
  functions and \<open>GetMail\<close> take no part in the statements below and are left out.
\<close>

text \<open>
  \<open>UIDL\<close>: the results \<open>uid\<close> and \<open>err\<close> are named, so the bare \<open>return\<close> after
  a failed command returns the zero string with the error.
\<close>

definition UIDL :: "'c client \<Rightarrow> int \<Rightarrow> 'c \<Rightarrow> (panic + (string \<times> error option)) \<times> 'c" where
  "UIDL ops msg c =
     (case Cmd ops (''UIDL %d'' @ CRLF) [msg] c of
        ((l, Some e), c1) \<Rightarrow> (Inr ([], Some e), c1)
      | ((l, None), c1) \<Rightarrow>
          (case index (Fields l) 1 of
             Inl p \<Rightarrow> (Inl p, c1)
           | Inr uid \<Rightarrow> (Inr (uid, None), c1)))"

text \<open>
  The loop of \<open>UidlAll\<close> over \<open>lines\<close>: \<open>i\<close> is the index of the head of the
  remaining lines. The loop calls nothing on the client.
\<close>

fun UidlAll_loop ::
  "nat \<Rightarrow> string list \<Rightarrow> int list \<Rightarrow> string list \<Rightarrow> panic + (int list \<times> string list \<times> error option)"
where
  "UidlAll_loop i [] msgs uids = Inr (msgs, uids, None)"
| "UidlAll_loop i (l # ls) msgs uids =
     (let fs = Fields l in
      case index fs 0 of
        Inl p \<Rightarrow> Inl p
      | Inr f0 \<Rightarrow>
          (case Atoi f0 of
             (m, Some e) \<Rightarrow> Inr (msgs, uids, Some e)
           | (m, None) \<Rightarrow>
               (case store msgs (int i) m of
                  Inl p \<Rightarrow> Inl p
                | Inr msgs' \<Rightarrow>
                    (case index fs 1 of
                       Inl p \<Rightarrow> Inl p
                     | Inr f1 \<Rightarrow>
                         (case store uids (int i) f1 of
                            Inl p \<Rightarrow> Inl p
                          | Inr uids' \<Rightarrow> UidlAll_loop (Suc i) ls msgs' uids')))))"

definition UidlAll ::
  "'c client \<Rightarrow> 'c \<Rightarrow> (panic + (int list \<times> string list \<times> error option)) \<times> 'c"
where
  "UidlAll ops c =
     (case Cmd ops (''UIDL'' @ CRLF) [] c of
        ((l, Some e), c1) \<Rightarrow> (Inr ([], [], Some e), c1)
      | ((l, None), c1) \<Rightarrow>
          (case ReadLines ops c1 of
             ((lines, Some e), c2) \<Rightarrow> (Inr ([], [], Some e), c2)
           | ((lines, None), c2) \<Rightarrow>
               (UidlAll_loop 0 lines
                  (replicate (length lines) 0) (replicate (length lines) []), c2)))"

definition TOP :: "'c client \<Rightarrow> int \<Rightarrow> int \<Rightarrow> 'c \<Rightarrow> (string \<times> error option) \<times> 'c" where
  "TOP ops msg n c =
     (case Cmd ops (''TOP %d %d'' @ CRLF) [msg, n] c of
        ((l, Some e), c1) \<Rightarrow> (([], Some e), c1)
      | ((l, None), c1) \<Rightarrow>
          (case ReadLines ops c1 of
             ((lines, Some e), c2) \<Rightarrow> (([], Some e), c2)
           | ((lines, None), c2) \<Rightarrow> ((Join lines [CHR 0x0A], None), c2)))"

definition GetInfo ::
  "'e parsemail \<Rightarrow> 'c client \<Rightarrow> int \<Rightarrow> 'c \<Rightarrow> ('e \<times> error option) \<times> 'c"
where
  "GetInfo P ops msg c =
     (case TOP ops msg 120 c of
        ((text, Some e), c1) \<Rightarrow> ((zeroEmail P, Some e), c1)
      | ((text, None), c1) \<Rightarrow> (ParseHeader P text, c1))"

text \<open>
  The first loop of \<open>GetList\<close>, from \<open>i\<close> downwards: \<open>list\<close> is what has been
  appended so far.
\<close>

function GetList_collect ::
  "'e \<Rightarrow> int \<Rightarrow> int list \<Rightarrow> int list \<Rightarrow> int \<Rightarrow> int \<Rightarrow> 'e MailItem list \<Rightarrow> panic + 'e MailItem list"
where
  "GetList_collect z n msgs sizes num i list =
     (if i \<ge> 0 then
        (case index sizes i of
           Inl p \<Rightarrow> Inl p
         | Inr sz \<Rightarrow>
             (case index msgs i of
                Inl p \<Rightarrow> Inl p
              | Inr m \<Rightarrow>
                  (let item = \<lparr>Email = z, Size = sz, MsgNum = m\<rparr>;
                       list' = list @ [item]
                   in if n > 0 \<and> num - i \<ge> n then Inr list'
                      else GetList_collect z n msgs sizes num (i - 1) list')))
      else Inr list)"
  by pat_completeness auto
termination
  by (relation "measure (\<lambda>(z, n, msgs, sizes, num, i, list). nat (i + 1))") auto

declare GetList_collect.simps [simp del]

text \<open>
  The second loop of \<open>GetList\<close>, from index \<open>i\<close> upwards. \<open>list\<close> and \<open>err\<close> are the
  named results: the bare \<open>return\<close> after a failed \<open>GetInfo\<close> returns \<open>list\<close> as it is
  at that moment together with the error.
\<close>

function GetList_populate ::
  "'e parsemail \<Rightarrow> 'c client \<Rightarrow> int \<Rightarrow> 'e MailItem list \<Rightarrow> 'c \<Rightarrow>
     (panic + ('e MailItem list \<times> error option)) \<times> 'c"
where
  "GetList_populate P ops i list c =
     (if i < int (length list) then
        (case index list i of
           Inl p \<Rightarrow> (Inl p, c)
         | Inr it \<Rightarrow>
             (case GetInfo P ops (MsgNum it) c of
                ((email, Some e), c1) \<Rightarrow> (Inr (list, Some e), c1)
              | ((email, None), c1) \<Rightarrow>
                  (case store list i (it\<lparr>Email := email\<rparr>) of
                     Inl p \<Rightarrow> (Inl p, c1)
                   | Inr list' \<Rightarrow> GetList_populate P ops (i + 1) list' c1)))
      else (Inr (list, None), c))"
  by pat_completeness auto
termination
  by (relation "measure (\<lambda>(P, ops, i, list, c). nat (int (length list) - i))")
     (auto simp: store_def split: if_splits)

declare GetList_populate.simps [simp del]

definition GetList ::
  "'e parsemail \<Rightarrow> 'c client \<Rightarrow> int \<Rightarrow> 'c \<Rightarrow> (panic + ('e MailItem list \<times> error option)) \<times> 'c"
where
  "GetList P ops n c =
     (case ListAll ops c of
        ((msgs, sizes, Some e), c1) \<Rightarrow> (Inr ([], Some e), c1)
      | ((msgs, sizes, None), c1) \<Rightarrow>
          (let num = int (length msgs) in
           if num \<noteq> int (length sizes) then
             (Inr ([], Some (Errorf ''GetList(): length of msgs and sizes are not the same.'')), c1)
           else
             (case GetList_collect (zeroEmail P) n msgs sizes num (num - 1) [] of
                Inl p \<Rightarrow> (Inl p, c1)
              | Inr list \<Rightarrow> GetList_populate P ops 0 list c1)))"

section \<open>A scripted client\<close>

text \<open>
  A client that answers from a script and records every call made on it, in order. Its
  state is the record of calls. \<open>reply\<close> gives the status line of a command, \<open>body\<close>
  the multi-line block that follows the command sent last, \<open>listing\<close> the result of
  \<open>ListAll\<close>.
\<close>

datatype call = Sent string "int list" | Read | Listed

fun last_sent :: "call list \<Rightarrow> (string \<times> int list) option" where
  "last_sent [] = None"
| "last_sent (Sent f args # cs) = (case last_sent cs of None \<Rightarrow> Some (f, args) | Some r \<Rightarrow> Some r)"
| "last_sent (_ # cs) = last_sent cs"

definition scripted ::
  "(string \<Rightarrow> int list \<Rightarrow> string \<times> error option) \<Rightarrow>
   (string \<Rightarrow> int list \<Rightarrow> string list \<times> error option) \<Rightarrow>
   (int list \<times> int list \<times> error option) \<Rightarrow> call list client"
where
  "scripted reply body listing =
     \<lparr> Cmd = (\<lambda>f args w. (reply f args, w @ [Sent f args])),
       ReadLines = (\<lambda>w. (case last_sent w of
                            None \<Rightarrow> ([], Some (ClientError ''EOF''))
                          | Some (f, args) \<Rightarrow> body f args, w @ [Read])),
       ListAll = (\<lambda>w. (listing, w @ [Listed])) \<rparr>"

text \<open>A parser whose \<open>Email\<close> is the text it was given; it rejects the empty text.\<close>

definition text_parser :: "string parsemail" where
  "text_parser =
     \<lparr> ParseHeader = (\<lambda>t. if t = [] then ([], Some (ParserError ''no header'')) else (t, None)),
       zeroEmail = [] \<rparr>"

text \<open>
  A mailbox of the messages 1 to 5. \<open>TOP\<close> of message \<open>m\<close> fails for \<open>m\<close> in \<open>bad\<close>;
  \<open>UIDL m\<close> is rejected for a message that does not exist.
\<close>

definition mbox_reply :: "int list \<Rightarrow> string \<Rightarrow> int list \<Rightarrow> string \<times> error option" where
  "mbox_reply bad f args =
     (if f = ''TOP %d %d'' @ CRLF \<and> args \<noteq> [] \<and> hd args \<in> set bad
        then (''no such message'', Some (ClientError ''no such message''))
      else if f = ''UIDL %d'' @ CRLF \<and> args \<noteq> [] \<and> (hd args < 1 \<or> 5 < hd args)
        then (''no such message'', Some (ClientError ''no such message''))
      else if f = ''UIDL %d'' @ CRLF then (''1 uid-a'', None)
      else ([], None))"

definition mbox_body :: "string \<Rightarrow> int list \<Rightarrow> string list \<times> error option" where
  "mbox_body f args =
     (if f = ''UIDL'' @ CRLF then ([''1 uid-a'', ''2 uid-b'', ''3 uid-c''], None)
      else ([''Subject: hello'', ''From: a@b''], None))"

definition mbox :: "int list \<Rightarrow> call list client" where
  "mbox bad = scripted (mbox_reply bad) mbox_body ([1, 2, 3, 4, 5], [100, 200, 300, 400, 500], None)"

text \<open>
  A server that accepts every command with the status text \<open>status\<close>, sends \<open>lines\<close>
  as every multi-line block and lists the given message numbers and sizes.
\<close>

definition canned :: "string \<Rightarrow> string list \<Rightarrow> int list \<times> int list \<Rightarrow> call list client" where
  "canned status lines listing =
     scripted (\<lambda>f args. (status, None)) (\<lambda>f args. (lines, None)) (fst listing, snd listing, None)"

text \<open>The text \<open>TOP\<close> gives for a message of the mailbox.\<close>

definition hello :: string where
  "hello = ''Subject: hello'' @ [CHR 0x0A] @ ''From: a@b''"

section \<open>Notions used in the statements\<close>

text \<open>
  The summaries of a listing, newest first, before any header is fetched: the listing
  reversed, every summary with the zero \<open>Email\<close>.
\<close>

definition newest_first :: "'e \<Rightarrow> int list \<Rightarrow> int list \<Rightarrow> 'e MailItem list" where
  "newest_first z msgs sizes =
     map (\<lambda>(m, s). \<lparr>Email = z, Size = s, MsgNum = m\<rparr>) (rev (zip msgs sizes))"

text \<open>At most \<open>n\<close> entries from the front when \<open>n > 0\<close>, all of them otherwise.\<close>

definition recent :: "int \<Rightarrow> 'a list \<Rightarrow> 'a list" where
  "recent n xs = (if 0 < n then take (nat n) xs else xs)"

text \<open>
  \<open>GetInfo\<close> on the given message numbers, one after the other, up to the first call
  that fails: the headers fetched before it, the error of the failing call if there is one,
  and the state of the client after the last call made.
\<close>

fun fetch_headers ::
  "'e parsemail \<Rightarrow> 'c client \<Rightarrow> int list \<Rightarrow> 'c \<Rightarrow> ('e list \<times> error option) \<times> 'c"
where
  "fetch_headers P ops [] c = (([], None), c)"
| "fetch_headers P ops (m # ms) c =
     (case GetInfo P ops m c of
        ((email, Some e), c1) \<Rightarrow> (([], Some e), c1)
      | ((email, None), c1) \<Rightarrow>
          (case fetch_headers P ops ms c1 of
             ((es, err), c2) \<Rightarrow> ((email # es, err), c2)))"

text \<open>The summaries with the given headers put into the first of them.\<close>

fun with_headers :: "'e MailItem list \<Rightarrow> 'e list \<Rightarrow> 'e MailItem list" where
  "with_headers items [] = items"
| "with_headers [] es = []"
| "with_headers (it # items) (e # es) = it\<lparr>Email := e\<rparr> # with_headers items es"

text \<open>
  A line of the \<open>UIDL\<close> listing that \<open>UidlAll\<close> takes in: it has at least two fields
  and the first is a valid integer. \<open>line_msg\<close> and \<open>line_uid\<close> are what it stores for
  such a line.
\<close>

definition line_ok :: "string \<Rightarrow> bool" where
  "line_ok l = (2 \<le> length (Fields l) \<and> snd (Atoi (hd (Fields l))) = None)"

definition line_msg :: "string \<Rightarrow> int" where
  "line_msg l = fst (Atoi (hd (Fields l)))"

definition line_uid :: "string \<Rightarrow> string" where
  "line_uid l = Fields l ! 1"

text \<open>A line that has a first field, and \<open>strconv.Atoi\<close> rejects it.\<close>

definition bad_first :: "string \<Rightarrow> bool" where
  "bad_first l = (Fields l \<noteq> [] \<and> snd (Atoi (hd (Fields l))) \<noteq> None)"

text \<open>
  What the loop of \<open>UidlAll\<close> does at the first line \<open>l\<close> it does not take in, with the
  results as they are then: no field at all, a first field that is no integer, or an integer
  with no second field.
\<close>

definition UidlAll_stop ::
  "string \<Rightarrow> int list \<Rightarrow> string list \<Rightarrow> panic + (int list \<times> string list \<times> error option)"
where
  "UidlAll_stop l msgs uids =
     (case Fields l of
        [] \<Rightarrow> Inl (IndexOutOfRange 0 0)
      | f0 # r \<Rightarrow>
          (case Atoi f0 of
             (m, Some e) \<Rightarrow> Inr (msgs, uids, Some e)
           | (m, None) \<Rightarrow> Inl (IndexOutOfRange 1 1)))"

text \<open>
  The two result slices once the loop has taken in the leading well-formed lines: their
  entries, then zero values up to the number of lines.
\<close>

definition UidlAll_results :: "string list \<Rightarrow> int list \<times> string list" where
  "UidlAll_results lines =
     (let good = takeWhile line_ok lines
      in (map line_msg good @ replicate (length lines - length good) 0,
          map line_uid good @ replicate (length lines - length good) []))"

section \<open>Slices, fields and the scripted client\<close>

lemma index_in_range: "0 \<le> i \<Longrightarrow> i < int (length xs) \<Longrightarrow> index xs i = Inr (xs ! nat i)"
  by (simp add: index_def)

lemma store_in_range: "0 \<le> i \<Longrightarrow> i < int (length xs) \<Longrightarrow> store xs i v = Inr (xs[nat i := v])"
  by (simp add: store_def)

lemma Fields_from_nonempty: "f \<in> set (Fields_from cur s) \<Longrightarrow> f \<noteq> []"
proof (induction cur s rule: Fields_from.induct)
  case (1 cur)
  then show ?case by (simp split: if_splits)
next
  case (2 cur b bs)
  show ?case
  proof (cases "space_width (b # bs) = 0")
    case True
    with 2 show ?thesis by simp
  next
    case False
    with "2.prems" have "f = cur \<and> cur \<noteq> [] \<or> f \<in> set (Fields_from [] (drop (space_width (b # bs) - 1) bs))"
      by (simp add: Let_def split: if_splits)
    with False "2.IH"(2) show ?thesis by blast
  qed
qed

lemma Fields_nonempty: "f \<in> set (Fields s) \<Longrightarrow> f \<noteq> []"
  unfolding Fields_def by (rule Fields_from_nonempty)

lemma Fields_uid_a: "Fields ''1 uid-a'' = [''1'', ''uid-a'']"
  by (simp add: Fields_def space_width_def)

lemmas scripted_defs =
  scripted_def mbox_def mbox_reply_def mbox_body_def text_parser_def CRLF_def

lemma last_sent_snoc: "last_sent (w @ [Sent f a]) = Some (f, a)"
  by (induction w rule: last_sent.induct) simp_all

lemma ListAll_mbox:
  "ListAll (mbox bad) [] = (([1, 2, 3, 4, 5], [100, 200, 300, 400, 500], None), [Listed])"
  by (simp add: scripted_defs)

section \<open>The loops of GetList\<close>

subsection \<open>Collecting the summaries\<close>

lemma length_newest_first: "length (newest_first z msgs sizes) = min (length msgs) (length sizes)"
  by (simp add: newest_first_def)

lemma newest_first_nth:
  assumes "length sizes = length msgs" and "k < length msgs"
  shows "newest_first z msgs sizes ! k =
           \<lparr>Email = z, Size = sizes ! (length msgs - 1 - k), MsgNum = msgs ! (length msgs - 1 - k)\<rparr>"
  using assms by (simp add: newest_first_def rev_nth)

lemma map_MsgNum_newest_first:
  "length sizes = length msgs \<Longrightarrow> map MsgNum (newest_first z msgs sizes) = rev msgs"
  by (simp add: newest_first_def rev_map [symmetric] o_def case_prod_unfold)

lemma map_Size_newest_first:
  "length sizes = length msgs \<Longrightarrow> map Size (newest_first z msgs sizes) = rev sizes"
  by (simp add: newest_first_def rev_map [symmetric] o_def case_prod_unfold)

lemma GetList_collect_eq:
  "length sizes = length msgs \<Longrightarrow> num = int (length msgs) \<Longrightarrow>
   - 1 \<le> i \<Longrightarrow> i < num \<Longrightarrow> (0 < n \<Longrightarrow> num - 1 - i < n) \<Longrightarrow>
   list = take (nat (num - 1 - i)) (newest_first z msgs sizes) \<Longrightarrow>
   GetList_collect z n msgs sizes num i list =
     Inr (if 0 < n then take (nat n) (newest_first z msgs sizes)
          else newest_first z msgs sizes)"
proof (induction z n msgs sizes num i list rule: GetList_collect.induct)
  case (1 z n msgs sizes num i list)
  note assms = "1.prems"(1,2)
  note bounds = "1.prems"(3,4)
  note small = "1.prems"(5)
  note acc = "1.prems"(6)
  let ?full = "newest_first z msgs sizes"
  have len: "length ?full = length msgs"
    using assms by (simp add: length_newest_first)
  show ?case
  proof (cases "0 \<le> i")
    case False
    with bounds have i: "i = - 1" by simp
    have "list = ?full" using acc i assms len by simp
    moreover have "0 < n \<Longrightarrow> take (nat n) ?full = ?full"
      using small i assms len by simp
    ultimately show ?thesis
      using i by (subst GetList_collect.simps) simp
  next
    case True
    define k where "k = nat (num - 1 - i)"
    have k: "k < length msgs" "nat i = length msgs - 1 - k" "nat (num - i) = Suc k"
      using True bounds assms by (auto simp: k_def)
    have isz: "index sizes i = Inr (sizes ! nat i)" and ims: "index msgs i = Inr (msgs ! nat i)"
      using True bounds assms by (simp_all add: index_in_range)
    let ?item = "\<lparr>Email = z, Size = sizes ! nat i, MsgNum = msgs ! nat i\<rparr>"
    have item: "?full ! k = ?item"
      using newest_first_nth [OF assms(1) k(1)] k(2) by simp
    have app: "list @ [?item] = take (nat (num - i)) ?full"
      using acc k(1) len item
      by (simp add: k_def [symmetric] k(3) take_Suc_conv_app_nth)
    show ?thesis
    proof (cases "0 < n \<and> n \<le> num - i")
      case stop: True
      with small have "n = num - i" by simp
      with app stop show ?thesis
        using True isz ims by (subst GetList_collect.simps) simp
    next
      case go: False
      have "GetList_collect z n msgs sizes num (i - 1) (list @ [?item]) =
              Inr (if 0 < n then take (nat n) ?full else ?full)"
        using go True bounds app assms
        by (intro "1.IH" [OF True isz ims refl refl]) (auto simp: algebra_simps)
      with go show ?thesis
        using True isz ims by (subst GetList_collect.simps) (auto simp: Let_def)
    qed
  qed
qed

subsection \<open>Fetching the headers\<close>

lemma length_with_headers: "length (with_headers items es) = length items"
  by (induction items es rule: with_headers.induct) simp_all

lemma map_MsgNum_with_headers: "map MsgNum (with_headers items es) = map MsgNum items"
  by (induction items es rule: with_headers.induct) simp_all

lemma map_Size_with_headers: "map Size (with_headers items es) = map Size items"
  by (induction items es rule: with_headers.induct) simp_all

lemma with_headers_nth:
  "k < length items \<Longrightarrow>
   with_headers items es ! k = (if k < length es then (items ! k)\<lparr>Email := es ! k\<rparr> else items ! k)"
proof (induction items es arbitrary: k rule: with_headers.induct)
  case (3 it items e es)
  then show ?case by (cases k) simp_all
qed simp_all

lemma fetch_headers_length:
  "fetch_headers P ops ms c = ((es, err), c') \<Longrightarrow>
   (case err of None \<Rightarrow> length es = length ms | Some e \<Rightarrow> length es < length ms)"
proof (induction ms arbitrary: c es)
  case Nil
  then show ?case by auto
next
  case (Cons m ms)
  then show ?case
    by (fastforce split: prod.splits option.splits)
qed

lemma fetch_headers_failing_call:
  "fetch_headers P ops ms c = ((es, Some e), c') \<Longrightarrow>
   \<exists>c0 em. GetInfo P ops (ms ! length es) c0 = ((em, Some e), c')"
proof (induction ms arbitrary: c es)
  case Nil
  then show ?case by simp
next
  case (Cons m ms)
  obtain em r c1 where g: "GetInfo P ops m c = ((em, r), c1)"
    by (metis prod.exhaust)
  show ?case
  proof (cases r)
    case None
    obtain es' err' c2 where f: "fetch_headers P ops ms c1 = ((es', err'), c2)"
      by (metis prod.exhaust)
    with Cons.prems g None have "es = em # es'" "err' = Some e" "c2 = c'"
      by simp_all
    with Cons.IH [of c1 es'] f show ?thesis by simp
  next
    case (Some e')
    with Cons.prems g have "es = []" "e' = e" "c1 = c'" by simp_all
    with g Some show ?thesis by auto
  qed
qed

lemma fetch_headers_no_failure:
  "(\<And>m c. snd (fst (GetInfo P ops m c)) = None) \<Longrightarrow>
   snd (fst (fetch_headers P ops ms c)) = None"
proof (induction ms arbitrary: c)
  case Nil
  then show ?case by simp
next
  case (Cons m ms)
  obtain em r c1 where g: "GetInfo P ops m c = ((em, r), c1)"
    by (metis prod.exhaust)
  with Cons.prems [of m c] have r: "r = None" by simp
  obtain es' err' c2 where f: "fetch_headers P ops ms c1 = ((es', err'), c2)"
    by (metis prod.exhaust)
  with Cons.IH [of c1] Cons.prems have "err' = None" by simp
  with g r f show ?case by simp
qed

lemma fetch_headers_trace:
  "k < length ms \<Longrightarrow> length es = k \<Longrightarrow> length cs = Suc k \<Longrightarrow>
   (\<forall>j<k. GetInfo P ops (ms ! j) (cs ! j) = ((es ! j, None), cs ! Suc j)) \<Longrightarrow>
   GetInfo P ops (ms ! k) (cs ! k) = ((em, Some e), c2) \<Longrightarrow>
   fetch_headers P ops ms (cs ! 0) = ((es, Some e), c2)"
proof (induction ms arbitrary: k es cs)
  case Nil
  then show ?case by simp
next
  case (Cons m ms)
  show ?case
  proof (cases k)
    case 0
    with Cons.prems show ?thesis by simp
  next
    case (Suc k')
    with Cons.prems obtain e0 es' where es: "es = e0 # es'" "length es' = k'"
      by (cases es) auto
    from Suc Cons.prems obtain s0 cs' where cs: "cs = s0 # cs'" "length cs' = Suc k'"
      by (cases cs) auto
    have first: "GetInfo P ops m s0 = ((e0, None), cs' ! 0)"
      using Cons.prems(4) Suc es cs by (auto dest: spec [of _ 0])
    have rest: "\<forall>j<k'. GetInfo P ops (ms ! j) (cs' ! j) = ((es' ! j, None), cs' ! Suc j)"
    proof (intro allI impI)
      fix j assume "j < k'"
      then have "Suc j < k" using Suc by simp
      with Cons.prems(4) have
        "GetInfo P ops ((m # ms) ! Suc j) (cs ! Suc j) = ((es ! Suc j, None), cs ! Suc (Suc j))"
        by blast
      then show "GetInfo P ops (ms ! j) (cs' ! j) = ((es' ! j, None), cs' ! Suc j)"
        using es cs by simp
    qed
    have last: "GetInfo P ops (ms ! k') (cs' ! k') = ((em, Some e), c2)"
      using Cons.prems(5) Suc cs by simp
    have "k' < length ms"
      using Cons.prems(1) Suc by simp
    from Cons.IH [OF this es(2) cs(2) rest last]
    have "fetch_headers P ops ms (cs' ! 0) = ((es', Some e), c2)" .
    with first show ?thesis
      using es cs by simp
  qed
qed

lemma GetList_populate_eq:
  "0 \<le> i \<Longrightarrow> i \<le> int (length list) \<Longrightarrow>
   GetList_populate P ops i list c =
     (case fetch_headers P ops (map MsgNum (drop (nat i) list)) c of
        ((es, err), c') \<Rightarrow>
          (Inr (take (nat i) list @ with_headers (drop (nat i) list) es, err), c'))"
proof (induction P ops i list c rule: GetList_populate.induct)
  case (1 P ops i list c)
  show ?case
  proof (cases "i < int (length list)")
    case False
    with "1.prems" have "nat i = length list" by simp
    with False show ?thesis
      by (subst GetList_populate.simps) simp
  next
    case True
    let ?it = "list ! nat i"
    have ix: "index list i = Inr ?it"
      using True "1.prems" by (simp add: index_in_range)
    have dr: "drop (nat i) list = ?it # drop (Suc (nat i)) list"
      using True "1.prems" by (simp add: Cons_nth_drop_Suc)
    have whole: "take (nat i) list @ ?it # drop (Suc (nat i)) list = list"
      using True "1.prems" by (simp add: id_take_nth_drop [symmetric])
    obtain em r c1 where g: "GetInfo P ops (MsgNum ?it) c = ((em, r), c1)"
      by (metis prod.exhaust)
    show ?thesis
    proof (cases r)
      case (Some e)
      with True ix g dr whole show ?thesis
        by (subst GetList_populate.simps) simp
    next
      case None
      let ?list' = "list[nat i := ?it\<lparr>Email := em\<rparr>]"
      have st: "store list i (?it\<lparr>Email := em\<rparr>) = Inr ?list'"
        using True "1.prems" by (simp add: store_in_range)
      have nat1: "nat (i + 1) = Suc (nat i)"
        using "1.prems" by simp
      have tk: "take (Suc (nat i)) ?list' = take (nat i) list @ [?it\<lparr>Email := em\<rparr>]"
        using True "1.prems" by (simp add: take_Suc_conv_app_nth)
      have IH: "GetList_populate P ops (i + 1) ?list' c1 =
        (case fetch_headers P ops (map MsgNum (drop (Suc (nat i)) list)) c1 of
           ((es, err), c') \<Rightarrow>
             (Inr (take (nat i) list @ [?it\<lparr>Email := em\<rparr>] @ with_headers (drop (Suc (nat i)) list) es, err), c'))"
        using "1.IH" [OF True ix g [symmetric] refl None st] True "1.prems"
        by (simp add: nat1 tk)
      show ?thesis
        using True ix g None st IH dr
        by (subst GetList_populate.simps) (simp split: prod.splits)
    qed
  qed
qed

subsection \<open>GetList as a whole\<close>

lemma GetList_eq:
  assumes "ListAll ops c = ((msgs, sizes, None), c1)" and "length sizes = length msgs"
  shows "GetList P ops n c =
           (case fetch_headers P ops
                   (map MsgNum (recent n (newest_first (zeroEmail P) msgs sizes))) c1 of
              ((es, err), c') \<Rightarrow>
                (Inr (with_headers (recent n (newest_first (zeroEmail P) msgs sizes)) es, err), c'))"
proof -
  have "GetList_collect (zeroEmail P) n msgs sizes (int (length msgs)) (int (length msgs) - 1) [] =
          Inr (recent n (newest_first (zeroEmail P) msgs sizes))"
    unfolding recent_def
    by (rule GetList_collect_eq [OF assms(2) refl]) simp_all
  then show ?thesis
    using assms by (simp add: GetList_def GetList_populate_eq)
qed

lemma GetList_returns:
  assumes "ListAll ops c = ((msgs, sizes, None), c1)" and "length sizes = length msgs"
  shows "\<exists>es err c'.
           fetch_headers P ops (map MsgNum (recent n (newest_first (zeroEmail P) msgs sizes))) c1 =
             ((es, err), c') \<and>
           GetList P ops n c =
             (Inr (with_headers (recent n (newest_first (zeroEmail P) msgs sizes)) es, err), c')"
proof -
  obtain es err c' where
    "fetch_headers P ops (map MsgNum (recent n (newest_first (zeroEmail P) msgs sizes))) c1 =
       ((es, err), c')"
    by (metis prod.exhaust)
  then show ?thesis
    using GetList_eq [OF assms, of P n] by simp
qed

lemma GetList_shape:
  assumes "ListAll ops c = ((msgs, sizes, None), c1)" and "length sizes = length msgs"
  shows "\<exists>list err c'.
           GetList P ops n c = (Inr (list, err), c') \<and>
           map MsgNum list = recent n (rev msgs) \<and>
           map Size list = recent n (rev sizes) \<and>
           ((\<forall>m s. snd (fst (GetInfo P ops m s)) = None) \<longrightarrow> err = None)"
proof -
  let ?items = "recent n (newest_first (zeroEmail P) msgs sizes)"
  obtain es err c' where
    f: "fetch_headers P ops (map MsgNum ?items) c1 = ((es, err), c')" and
    g: "GetList P ops n c = (Inr (with_headers ?items es, err), c')"
    using GetList_returns [OF assms, of P n] by blast
  have m: "map MsgNum ?items = recent n (rev msgs)"
    using assms(2) by (simp add: recent_def take_map [symmetric] map_MsgNum_newest_first)
  have s: "map Size ?items = recent n (rev sizes)"
    using assms(2) by (simp add: recent_def take_map [symmetric] map_Size_newest_first)
  have "err = None" if "\<forall>m s. snd (fst (GetInfo P ops m s)) = None"
    using fetch_headers_no_failure [of P ops "map MsgNum ?items" c1] that f by simp
  with g m s show ?thesis
    by (simp add: map_MsgNum_with_headers map_Size_with_headers)
qed

section \<open>The loop of UidlAll\<close>



lemma UidlAll_loop_eq:
  "i + length ls \<le> length msgs \<Longrightarrow> i + length ls \<le> length uids \<Longrightarrow>
   UidlAll_loop i ls msgs uids =
     (let good = takeWhile line_ok ls;
          msgs' = take i msgs @ map line_msg good @ drop (i + length good) msgs;
          uids' = take i uids @ map line_uid good @ drop (i + length good) uids
      in if length good = length ls then Inr (msgs', uids', None)
         else UidlAll_stop (ls ! length good) msgs' uids')"
proof (induction ls arbitrary: i msgs uids)
  case Nil
  then show ?case by simp
next
  case (Cons l ls)
  show ?case
  proof (cases "line_ok l")
    case False
    have i: "i < length msgs"
      using Cons.prems by simp
    have "UidlAll_loop i (l # ls) msgs uids = UidlAll_stop l msgs uids"
    proof (cases "Fields l")
      case Nil
      then show ?thesis
        by (simp add: UidlAll_stop_def index_def)
    next
      case (Cons f0 r)
      obtain m err where at: "Atoi f0 = (m, err)"
        by (metis prod.exhaust)
      show ?thesis
      proof (cases err)
        case None
        with False Cons at have "r = []"
          by (cases r) (simp_all add: line_ok_def)
        with Cons at None i show ?thesis
          by (simp add: UidlAll_stop_def index_def store_def)
      next
        case (Some e)
        with Cons at show ?thesis
          by (simp add: UidlAll_stop_def index_def)
      qed
    qed
    with False show ?thesis
      by (simp add: Let_def)
  next
    case True
    then obtain f0 f1 r where fs: "Fields l = f0 # f1 # r"
      by (auto simp: line_ok_def Suc_le_length_iff numeral_2_eq_2)
    with True obtain m where at: "Atoi f0 = (m, None)"
      by (auto simp: line_ok_def) (metis prod.collapse)
    have lm: "line_msg l = m" and lu: "line_uid l = f1"
      using fs at by (simp_all add: line_msg_def line_uid_def)
    have i: "i < length msgs" "i < length uids"
      using Cons.prems by simp_all
    have step: "UidlAll_loop i (l # ls) msgs uids =
                  UidlAll_loop (Suc i) ls (msgs[i := m]) (uids[i := f1])"
      using fs at i by (simp add: index_def store_def)
    have tm: "take (Suc i) (msgs[i := m]) = take i msgs @ [m]"
      and tu: "take (Suc i) (uids[i := f1]) = take i uids @ [f1]"
      using i by (simp_all add: take_Suc_conv_app_nth)
    show ?thesis
      unfolding step
      using Cons.prems True
      by (subst Cons.IH) (simp_all add: Let_def tm tu lm lu)
  qed
qed

lemma UidlAll_eq:
  assumes "Cmd ops (''UIDL'' @ CRLF) [] c = ((l, None), c1)"
    and "ReadLines ops c1 = ((lines, None), c2)"
  shows "UidlAll ops c =
           (if length (takeWhile line_ok lines) = length lines
              then Inr (fst (UidlAll_results lines), snd (UidlAll_results lines), None)
            else UidlAll_stop (lines ! length (takeWhile line_ok lines))
                   (fst (UidlAll_results lines)) (snd (UidlAll_results lines)), c2)"
proof -
  have "UidlAll ops c =
          (UidlAll_loop 0 lines (replicate (length lines) 0) (replicate (length lines) []), c2)"
    using assms by (simp add: UidlAll_def)
  also have "UidlAll_loop 0 lines (replicate (length lines) 0) (replicate (length lines) []) =
      (if length (takeWhile line_ok lines) = length lines
              then Inr (fst (UidlAll_results lines), snd (UidlAll_results lines), None)
            else UidlAll_stop (lines ! length (takeWhile line_ok lines))
                   (fst (UidlAll_results lines)) (snd (UidlAll_results lines)))"
    by (subst UidlAll_loop_eq) (simp_all add: UidlAll_results_def Let_def)
  finally show ?thesis .
qed






lemma UidlAll_panics_iff:
  assumes cmd: "Cmd ops (''UIDL'' @ CRLF) [] c = ((l, None), c1)"
    and rd: "ReadLines ops c1 = ((lines, None), c2)"
  shows "(\<exists>p. fst (UidlAll ops c) = Inl p) \<longleftrightarrow>
           length (takeWhile line_ok lines) < length lines \<and>
           \<not> bad_first (lines ! length (takeWhile line_ok lines))"
proof -
  have le: "length (takeWhile line_ok lines) \<le> length lines"
    by (rule length_takeWhile_le)
  have stop: "(\<exists>p. UidlAll_stop x ms us = Inl p) \<longleftrightarrow> \<not> bad_first x" for x ms us
    by (auto simp: UidlAll_stop_def bad_first_def split: list.splits prod.splits option.splits)
  show ?thesis
    using le stop by (auto simp: UidlAll_eq [OF cmd rd])
qed

section \<open>UIDL\<close>

text \<open>
  C9. When the scoped \<open>UIDL\<close> command is rejected, \<open>UIDL\<close> returns the command's
  error together with the empty unique id; and whenever \<open>UIDL\<close> returns without an
  error, the unique id it returns is not empty.
\<close>

theorem UIDL_rejected:
  "(\<forall>l e c1. Cmd ops (''UIDL %d'' @ CRLF) [msg] c = ((l, Some e), c1) \<longrightarrow>
        UIDL ops msg c = (Inr ([], Some e), c1)) \<and>
   (\<forall>uid c'. UIDL ops msg c = (Inr (uid, None), c') \<longrightarrow> uid \<noteq> [])"
proof (intro conjI allI impI)
  fix l e c1
  assume "Cmd ops (''UIDL %d'' @ CRLF) [msg] c = ((l, Some e), c1)"
  then show "UIDL ops msg c = (Inr ([], Some e), c1)"
    by (simp add: UIDL_def)
next
  fix uid c'
  assume run: "UIDL ops msg c = (Inr (uid, None), c')"
  obtain l err c1 where cmd: "Cmd ops (''UIDL %d'' @ CRLF) [msg] c = ((l, err), c1)"
    by (metis prod.exhaust)
  with run have "index (Fields l) 1 = Inr uid"
    by (cases err; cases "index (Fields l) 1") (simp_all add: UIDL_def)
  then have "uid \<in> set (Fields l)"
    by (auto simp: index_def split: if_splits)
  then show "uid \<noteq> []"
    by (rule Fields_nonempty)
qed

theorem UIDL_rejected_witness:
  "UIDL (mbox []) 7 [] =
     (Inr ([], Some (ClientError ''no such message'')), [Sent (''UIDL %d'' @ CRLF) [7]]) \<and>
   UIDL (mbox []) 1 [] = (Inr (''uid-a'', None), [Sent (''UIDL %d'' @ CRLF) [1]]) \<and>
   ''uid-a'' \<noteq> []"
proof -
  have cmd: "Cmd (mbox []) (''UIDL %d'' @ CRLF) [7] [] =
               ((''no such message'', Some (ClientError ''no such message'')),
                [Sent (''UIDL %d'' @ CRLF) [7]])"
    by (simp add: scripted_defs)
  have ok: "UIDL (mbox []) 1 [] = (Inr (''uid-a'', None), [Sent (''UIDL %d'' @ CRLF) [1]])"
    by (simp add: UIDL_def scripted_defs Fields_uid_a index_def)
  from UIDL_rejected [of "mbox []" 7 "[]"] cmd ok
  show ?thesis by simp
qed

text \<open>
  C3. The claim is that the indexing of field 0 and field 1 is in bounds for every
  response line the client accepts. It is not: a status text or a line with fewer than
  two fields makes \<open>UIDL\<close> and \<open>UidlAll\<close> panic with an index out of range.
\<close>

theorem short_response_panics:
  "UIDL (canned ''1'' [] ([], [])) 1 [] =
     (Inl (IndexOutOfRange 1 1), [Sent (''UIDL %d'' @ CRLF) [1]]) \<and>
   UidlAll (canned [] [''1 uid-a'', ''2''] ([], [])) [] =
     (Inl (IndexOutOfRange 1 1), [Sent (''UIDL'' @ CRLF) [], Read]) \<and>
   UidlAll (canned [] [''1 uid-a'', []] ([], [])) [] =
     (Inl (IndexOutOfRange 0 0), [Sent (''UIDL'' @ CRLF) [], Read])"
  by code_simp

section \<open>UidlAll\<close>






section \<open>GetInfo\<close>

text \<open>
  C8. \<open>GetInfo msg\<close> performs exactly the exchange of \<open>TOP msg 120\<close> and hands
  its text to the header-only parser; it returns an error exactly when \<open>TOP\<close> fails or,
  \<open>TOP\<close> having succeeded, the header-only parse fails, and that error is the one
  returned. The command it sends is \<open>TOP %d %d\<close> with the arguments \<open>msg\<close> and 120.
\<close>

theorem GetInfo_top_120:
  assumes "TOP ops msg 120 c = ((text, terr), c1)"
  shows "snd (GetInfo P ops msg c) = c1 \<and>
         (terr \<noteq> None \<longrightarrow> fst (GetInfo P ops msg c) = (zeroEmail P, terr)) \<and>
         (terr = None \<longrightarrow> fst (GetInfo P ops msg c) = ParseHeader P text) \<and>
         (snd (fst (GetInfo P ops msg c)) \<noteq> None \<longleftrightarrow>
            terr \<noteq> None \<or> (terr = None \<and> snd (ParseHeader P text) \<noteq> None)) \<and>
         (\<forall>l e c'. Cmd ops (''TOP %d %d'' @ CRLF) [msg, 120] c = ((l, Some e), c') \<longrightarrow>
            GetInfo P ops msg c = ((zeroEmail P, Some e), c'))"
  using assms by (cases terr) (auto simp: GetInfo_def TOP_def)

theorem GetInfo_top_120_witness:
  "TOP (mbox [4]) 3 120 [] =
     ((''Subject: hello'' @ [CHR 0x0A] @ ''From: a@b'', None),
      [Sent (''TOP %d %d'' @ CRLF) [3, 120], Read]) \<and>
   GetInfo text_parser (mbox [4]) 3 [] =
     ((''Subject: hello'' @ [CHR 0x0A] @ ''From: a@b'', None),
      [Sent (''TOP %d %d'' @ CRLF) [3, 120], Read]) \<and>
   GetInfo text_parser (mbox [4]) 4 [] =
     (([], Some (ClientError ''no such message'')), [Sent (''TOP %d %d'' @ CRLF) [4, 120]])"
proof -
  have t3: "TOP (mbox [4]) 3 120 [] =
     ((''Subject: hello'' @ [CHR 0x0A] @ ''From: a@b'', None),
      [Sent (''TOP %d %d'' @ CRLF) [3, 120], Read])"
    by (simp add: TOP_def scripted_defs)
  have t4: "TOP (mbox [4]) 4 120 [] =
     (([], Some (ClientError ''no such message'')), [Sent (''TOP %d %d'' @ CRLF) [4, 120]])"
    by (simp add: TOP_def scripted_defs)
  have p: "ParseHeader text_parser (''Subject: hello'' @ [CHR 0x0A] @ ''From: a@b'') =
             (''Subject: hello'' @ [CHR 0x0A] @ ''From: a@b'', None)"
    and z: "zeroEmail text_parser = []"
    by (simp_all add: text_parser_def)
  from GetInfo_top_120 [OF t3, of text_parser] GetInfo_top_120 [OF t4, of text_parser] t3 p z
  show ?thesis
    by (simp add: prod_eq_iff)
qed

section \<open>GetList\<close>

text \<open>
  C6. When \<open>ListAll\<close> returns message numbers and sizes of different lengths,
  \<open>GetList\<close> returns the length-mismatch error with no summaries, and the client is in
  the state \<open>ListAll\<close> left it in: nothing was sent after the listing.
\<close>

theorem GetList_length_mismatch:
  assumes "ListAll ops c = ((msgs, sizes, None), c1)" and "length msgs \<noteq> length sizes"
  shows "GetList P ops n c =
           (Inr ([], Some (Errorf ''GetList(): length of msgs and sizes are not the same.'')), c1)"
  using assms by (simp add: GetList_def)

theorem GetList_length_mismatch_witness:
  "length [1, 2 :: int] \<noteq> length [10 :: int] \<and>
   GetList text_parser (canned [] [] ([1, 2], [10])) 1 [] =
     (Inr ([], Some (Errorf ''GetList(): length of msgs and sizes are not the same.'')), [Listed])"
proof -
  have la: "ListAll (canned [] [] ([1, 2], [10])) [] = (([1, 2], [10], None), [Listed])"
    by (simp add: canned_def scripted_def)
  have ne: "length [1, 2 :: int] \<noteq> length [10 :: int]"
    by simp
  from GetList_length_mismatch [OF la ne, of text_parser 1] ne
  show ?thesis by simp
qed

text \<open>
  C1. Let \<open>ListAll\<close> return \<open>m\<close> message numbers in strictly ascending order with
  as many sizes. Then \<open>GetList n\<close> returns, without a panic, a list of exactly \<open>n\<close>
  summaries when \<open>0 < n \<le> m\<close> and of all \<open>m\<close> when \<open>n \<le> 0\<close>; its message numbers
  are strictly decreasing, and the summary at position \<open>k\<close> carries the message number and
  the size at position \<open>m - 1 - k\<close> of the listing. When no \<open>GetInfo\<close> call fails, the
  error returned with it is \<open>nil\<close>.
\<close>

theorem GetList_recent_first:
  assumes "ListAll ops c = ((msgs, sizes, None), c1)"
    and "length sizes = length msgs"
    and "sorted_wrt (<) msgs"
    and "0 < n \<longrightarrow> n \<le> int (length msgs)"
  shows "\<exists>list err c'.
           GetList P ops n c = (Inr (list, err), c') \<and>
           length list = (if 0 < n then nat n else length msgs) \<and>
           sorted_wrt (>) (map MsgNum list) \<and>
           (\<forall>k < length list.
              MsgNum (list ! k) = msgs ! (length msgs - 1 - k) \<and>
              Size (list ! k) = sizes ! (length msgs - 1 - k)) \<and>
           ((\<forall>m s. snd (fst (GetInfo P ops m s)) = None) \<longrightarrow> err = None)"
proof -
  obtain list err c' where
    g: "GetList P ops n c = (Inr (list, err), c')" and
    m: "map MsgNum list = recent n (rev msgs)" and
    s: "map Size list = recent n (rev sizes)" and
    e: "(\<forall>m s. snd (fst (GetInfo P ops m s)) = None) \<longrightarrow> err = None"
    using GetList_shape [OF assms(1,2), of P n] by blast
  have len: "length list = (if 0 < n then nat n else length msgs)"
    using arg_cong [OF m, of length] assms(4) by (auto simp: recent_def)
  have "sorted_wrt (>) (rev msgs)"
    using assms(3) by (simp add: sorted_wrt_rev)
  then have dec: "sorted_wrt (>) (map MsgNum list)"
    unfolding m recent_def by (simp add: sorted_wrt_take)
  have nth: "MsgNum (list ! k) = msgs ! (length msgs - 1 - k) \<and>
             Size (list ! k) = sizes ! (length msgs - 1 - k)" if k: "k < length list" for k
  proof -
    have km: "k < length msgs"
      using k len assms(4) by (auto split: if_splits)
    have "MsgNum (list ! k) = map MsgNum list ! k" "Size (list ! k) = map Size list ! k"
      using k by simp_all
    moreover have "recent n (rev msgs) ! k = rev msgs ! k" "recent n (rev sizes) ! k = rev sizes ! k"
      using k len by (auto simp: recent_def split: if_splits)
    ultimately show ?thesis
      using km assms(2) by (simp add: m s rev_nth)
  qed
  from g len dec nth e show ?thesis by blast
qed

theorem GetList_recent_first_witness:
  "ListAll (mbox []) [] = (([1, 2, 3, 4, 5], [100, 200, 300, 400, 500], None), [Listed]) \<and>
   sorted_wrt (<) [1, 2, 3, 4, 5 :: int] \<and>
   (3 :: int) \<le> int (length [1, 2, 3, 4, 5 :: int]) \<and>
   (\<exists>list c'. GetList text_parser (mbox []) 3 [] = (Inr (list, None), c') \<and>
      length list = 3 \<and> map MsgNum list = [5, 4, 3] \<and> map Size list = [500, 400, 300])"
proof -
  have len: "length [100, 200, 300, 400, 500 :: int] = length [1, 2, 3, 4, 5 :: int]"
    by simp
  have asc: "sorted_wrt (<) [1, 2, 3, 4, 5 :: int]"
    by simp
  have cap: "(0 :: int) < 3 \<longrightarrow> 3 \<le> int (length [1, 2, 3, 4, 5 :: int])"
    by simp
  have v: "fst (GetList text_parser (mbox []) 3 []) =
             Inr ([\<lparr>Email = ''Subject: hello'' @ [CHR 0x0A] @ ''From: a@b'', Size = 500, MsgNum = 5\<rparr>,
                   \<lparr>Email = ''Subject: hello'' @ [CHR 0x0A] @ ''From: a@b'', Size = 400, MsgNum = 4\<rparr>,
                   \<lparr>Email = ''Subject: hello'' @ [CHR 0x0A] @ ''From: a@b'', Size = 300, MsgNum = 3\<rparr>],
                  None)"
    by code_simp
  from GetList_recent_first [OF ListAll_mbox [of "[]"] len asc cap, of text_parser]
  obtain list err c' where
    "GetList text_parser (mbox []) 3 [] = (Inr (list, err), c')" by blast
  with v asc show ?thesis
    by (simp add: ListAll_mbox)
qed

text \<open>
  C10. When \<open>0 < n\<close> and the listing has fewer than \<open>n\<close> messages, \<open>GetList n\<close>
  returns a summary for every message of the listing, newest first, each with its size,
  and nothing more; when no \<open>GetInfo\<close> call fails, the error returned with it is \<open>nil\<close>.
\<close>

theorem GetList_fewer_than_n:
  assumes "ListAll ops c = ((msgs, sizes, None), c1)"
    and "length sizes = length msgs"
    and "0 < n" and "int (length msgs) < n"
  shows "\<exists>list err c'.
           GetList P ops n c = (Inr (list, err), c') \<and>
           length list = length msgs \<and>
           map MsgNum list = rev msgs \<and>
           map Size list = rev sizes \<and>
           ((\<forall>m s. snd (fst (GetInfo P ops m s)) = None) \<longrightarrow> err = None)"
proof -
  obtain list err c' where
    g: "GetList P ops n c = (Inr (list, err), c')" and
    m: "map MsgNum list = recent n (rev msgs)" and
    s: "map Size list = recent n (rev sizes)" and
    e: "(\<forall>m s. snd (fst (GetInfo P ops m s)) = None) \<longrightarrow> err = None"
    using GetList_shape [OF assms(1,2), of P n] by blast
  have m': "map MsgNum list = rev msgs" and s': "map Size list = rev sizes"
    using m s assms by (simp_all add: recent_def)
  have "length list = length msgs"
    using arg_cong [OF m', of length] by simp
  with g m' s' e show ?thesis by blast
qed

theorem GetList_fewer_than_n_witness:
  "ListAll (mbox []) [] = (([1, 2, 3, 4, 5], [100, 200, 300, 400, 500], None), [Listed]) \<and>
   int (length [1, 2, 3, 4, 5 :: int]) < 9 \<and>
   (\<exists>list c'. GetList text_parser (mbox []) 9 [] = (Inr (list, None), c') \<and>
      length list = 5 \<and> map MsgNum list = [5, 4, 3, 2, 1] \<and>
      map Size list = [500, 400, 300, 200, 100])"
proof -
  have len: "length [100, 200, 300, 400, 500 :: int] = length [1, 2, 3, 4, 5 :: int]"
    by simp
  have pos: "(0 :: int) < 9" and few: "int (length [1, 2, 3, 4, 5 :: int]) < 9"
    by simp_all
  have ok: "\<forall>m s. snd (fst (GetInfo text_parser (mbox []) m s)) = None"
    by (simp add: GetInfo_def TOP_def scripted_defs last_sent_snoc)
  from GetList_fewer_than_n [OF ListAll_mbox [of "[]"] len pos few, of text_parser] ok
  show ?thesis
    by (auto simp: ListAll_mbox)
qed

text \<open>
  C7. For every \<open>n \<le> 0\<close>, \<open>GetList n\<close> and \<open>GetList 0\<close> give the same result
  and leave the client in the same state; on a listing of equal lengths that result holds
  a summary for every message, newest first.
\<close>

theorem GetList_nonpositive:
  assumes "n \<le> 0"
  shows "GetList P ops n c = GetList P ops 0 c \<and>
         (\<forall>msgs sizes c1.
            ListAll ops c = ((msgs, sizes, None), c1) \<and> length sizes = length msgs \<longrightarrow>
            (\<exists>list err c'. GetList P ops n c = (Inr (list, err), c') \<and>
               map MsgNum list = rev msgs \<and> map Size list = rev sizes))"
proof -
  obtain msgs sizes err c1 where la: "ListAll ops c = ((msgs, sizes, err), c1)"
    by (metis prod.exhaust)
  have same: "GetList P ops n c = GetList P ops 0 c"
  proof (cases "err = None \<and> length sizes = length msgs")
    case True
    then show ?thesis
      using la assms by (simp add: GetList_eq recent_def)
  next
    case False
    then show ?thesis
      using la by (cases err) (auto simp: GetList_def)
  qed
  have full: "\<exists>list err c'. GetList P ops n c = (Inr (list, err), c') \<and>
               map MsgNum list = rev msgs' \<and> map Size list = rev sizes'"
    if "ListAll ops c = ((msgs', sizes', None), c1')" "length sizes' = length msgs'"
    for msgs' sizes' c1'
    using GetList_shape [OF that, of P n] assms by (auto simp: recent_def)
  from same full show ?thesis by blast
qed

theorem GetList_nonpositive_witness:
  "(- 2 :: int) \<le> 0 \<and>
   ListAll (canned [] [''Subject: x''] ([1, 2], [10, 20])) [] = (([1, 2], [10, 20], None), [Listed]) \<and>
   GetList text_parser (canned [] [''Subject: x''] ([1, 2], [10, 20])) (- 2) [] =
     GetList text_parser (canned [] [''Subject: x''] ([1, 2], [10, 20])) 0 [] \<and>
   fst (GetList text_parser (canned [] [''Subject: x''] ([1, 2], [10, 20])) 0 []) =
     Inr ([\<lparr>Email = ''Subject: x'', Size = 20, MsgNum = 2\<rparr>,
           \<lparr>Email = ''Subject: x'', Size = 10, MsgNum = 1\<rparr>], None)"
proof -
  have le: "(- 2 :: int) \<le> 0"
    by simp
  have la: "ListAll (canned [] [''Subject: x''] ([1, 2], [10, 20])) [] =
              (([1, 2], [10, 20], None), [Listed])"
    by (simp add: canned_def scripted_def)
  have v: "fst (GetList text_parser (canned [] [''Subject: x''] ([1, 2], [10, 20])) 0 []) =
     Inr ([\<lparr>Email = ''Subject: x'', Size = 20, MsgNum = 2\<rparr>,
           \<lparr>Email = ''Subject: x'', Size = 10, MsgNum = 1\<rparr>], None)"
    by code_simp
  from GetList_nonpositive [OF le, of text_parser "canned [] [''Subject: x''] ([1, 2], [10, 20])" "[]"]
  have "GetList text_parser (canned [] [''Subject: x''] ([1, 2], [10, 20])) (- 2) [] =
          GetList text_parser (canned [] [''Subject: x''] ([1, 2], [10, 20])) 0 []"
    by blast
  with le la v show ?thesis by simp
qed

text \<open>
  C2, as the claim states it, fails in its last part: when a \<open>GetInfo\<close> call fails,
  \<open>GetList\<close> returns the error together with the list collected so far, here three
  summaries of which the first carries its headers.
\<close>

theorem GetList_partial_list_counterexample:
  "fst (GetInfo text_parser (mbox [4]) 4 [Listed, Sent (''TOP %d %d'' @ CRLF) [5, 120], Read]) =
     ([], Some (ClientError ''no such message'')) \<and>
   fst (GetList text_parser (mbox [4]) 3 []) =
     Inr ([\<lparr>Email = hello, Size = 500, MsgNum = 5\<rparr>,
           \<lparr>Email = [], Size = 400, MsgNum = 4\<rparr>,
           \<lparr>Email = [], Size = 300, MsgNum = 3\<rparr>],
          Some (ClientError ''no such message''))"
  by code_simp

text \<open>
  C2, amended. Let \<open>items\<close> be the summaries \<open>GetList n\<close> collects from the
  listing. When the \<open>GetInfo\<close> calls for the first \<open>k\<close> of them succeed one after the
  other (from the client states \<open>cs\<close>, giving the headers \<open>es\<close>) and the call for item
  \<open>k\<close> fails with \<open>e\<close>, leaving the client in state \<open>c2\<close>, then \<open>GetList\<close>
  returns \<open>e\<close> and the client is in state \<open>c2\<close>: nothing was called after the failing
  \<open>GetInfo\<close>. The list returned with the error has all the collected summaries, the
  first \<open>k\<close> with their headers, the others as collected.
\<close>

theorem GetList_first_failure:
  assumes "ListAll ops c = ((msgs, sizes, None), c1)"
    and "length sizes = length msgs"
    and "items = recent n (newest_first (zeroEmail P) msgs sizes)"
    and "k < length items"
    and "length es = k" and "length cs = Suc k" and "cs ! 0 = c1"
    and "\<forall>j<k. GetInfo P ops (MsgNum (items ! j)) (cs ! j) = ((es ! j, None), cs ! Suc j)"
    and "GetInfo P ops (MsgNum (items ! k)) (cs ! k) = ((em, Some e), c2)"
  shows "\<exists>list. GetList P ops n c = (Inr (list, Some e), c2) \<and>
           length list = length items \<and>
           (\<forall>j<length items.
              list ! j = (if j < k then (items ! j)\<lparr>Email := es ! j\<rparr> else items ! j))"
proof -
  have a: "\<forall>j<k. GetInfo P ops (map MsgNum items ! j) (cs ! j) = ((es ! j, None), cs ! Suc j)"
    using assms(4,8) by simp
  have b: "GetInfo P ops (map MsgNum items ! k) (cs ! k) = ((em, Some e), c2)"
    using assms(4,9) by simp
  have km: "k < length (map MsgNum items)"
    using assms(4) by simp
  have "fetch_headers P ops (map MsgNum items) (cs ! 0) = ((es, Some e), c2)"
    by (rule fetch_headers_trace [OF km assms(5,6) a b])
  then have "GetList P ops n c = (Inr (with_headers items es, Some e), c2)"
    using GetList_eq [OF assms(1,2), of P n] assms(3,7) by simp
  moreover have "length (with_headers items es) = length items"
    by (rule length_with_headers)
  moreover have "\<forall>j<length items.
      with_headers items es ! j = (if j < k then (items ! j)\<lparr>Email := es ! j\<rparr> else items ! j)"
    using assms(5) by (simp add: with_headers_nth)
  ultimately show ?thesis by blast
qed

theorem GetList_first_failure_witness:
  "GetInfo text_parser (mbox [4]) 5 [Listed] =
     ((hello, None), [Listed, Sent (''TOP %d %d'' @ CRLF) [5, 120], Read]) \<and>
   GetInfo text_parser (mbox [4]) 4 [Listed, Sent (''TOP %d %d'' @ CRLF) [5, 120], Read] =
     (([], Some (ClientError ''no such message'')),
      [Listed, Sent (''TOP %d %d'' @ CRLF) [5, 120], Read, Sent (''TOP %d %d'' @ CRLF) [4, 120]]) \<and>
   GetList text_parser (mbox [4]) 3 [] =
     (Inr ([\<lparr>Email = hello, Size = 500, MsgNum = 5\<rparr>,
            \<lparr>Email = [], Size = 400, MsgNum = 4\<rparr>,
            \<lparr>Email = [], Size = 300, MsgNum = 3\<rparr>],
           Some (ClientError ''no such message'')),
      [Listed, Sent (''TOP %d %d'' @ CRLF) [5, 120], Read, Sent (''TOP %d %d'' @ CRLF) [4, 120]])"
proof -
  let ?items = "recent 3 (newest_first (zeroEmail text_parser) [1, 2, 3, 4, 5] [100, 200, 300, 400, 500])"
  let ?c1 = "[Listed]"
  let ?c2 = "[Listed, Sent (''TOP %d %d'' @ CRLF) [5, 120], Read]"
  let ?c3 = "[Listed, Sent (''TOP %d %d'' @ CRLF) [5, 120], Read, Sent (''TOP %d %d'' @ CRLF) [4, 120]]"
  have items: "?items = [\<lparr>Email = [], Size = 500, MsgNum = 5\<rparr>,
                         \<lparr>Email = [], Size = 400, MsgNum = 4\<rparr>,
                         \<lparr>Email = [], Size = 300, MsgNum = 3\<rparr>]"
    by (simp add: recent_def newest_first_def text_parser_def)
  have len: "length [100, 200, 300, 400, 500 :: int] = length [1, 2, 3, 4, 5 :: int]"
    by simp
  have k: "1 < length ?items"
    by (simp add: items)
  have g5: "GetInfo text_parser (mbox [4]) 5 ?c1 = ((hello, None), ?c2)"
    by (simp add: GetInfo_def TOP_def scripted_defs hello_def)
  have g4: "GetInfo text_parser (mbox [4]) 4 ?c2 = (([], Some (ClientError ''no such message'')), ?c3)"
    by (simp add: GetInfo_def TOP_def scripted_defs)
  have ok: "\<forall>j<1. GetInfo text_parser (mbox [4]) (MsgNum (?items ! j)) ([?c1, ?c2] ! j) =
              (([hello] ! j, None), [?c1, ?c2] ! Suc j)"
    using g5 by (simp add: items)
  have bad: "GetInfo text_parser (mbox [4]) (MsgNum (?items ! 1)) ([?c1, ?c2] ! 1) =
               (([], Some (ClientError ''no such message'')), ?c3)"
    using g4 by (simp add: items)
  have e1: "length [hello] = 1" and c2: "length [?c1, ?c2] = Suc 1" and c0: "[?c1, ?c2] ! 0 = ?c1"
    by simp_all
  note inst = GetList_first_failure
    [where P = text_parser and ops = "mbox [4]" and c = "[]" and n = 3 and k = 1
       and items = ?items and es = "[hello]" and cs = "[?c1, ?c2]" and ?c1.0 = ?c1
       and ?c2.0 = ?c3 and em = "[]" and e = "ClientError ''no such message''"
       and msgs = "[1, 2, 3, 4, 5]" and sizes = "[100, 200, 300, 400, 500]"]
  from inst [OF ListAll_mbox [of "[4]"] len refl k e1 c2 c0 ok bad]
  obtain list where
    run: "GetList text_parser (mbox [4]) 3 [] = (Inr (list, Some (ClientError ''no such message'')), ?c3)"
    by auto
  have "fst (GetList text_parser (mbox [4]) 3 []) =
          Inr ([\<lparr>Email = hello, Size = 500, MsgNum = 5\<rparr>,
                \<lparr>Email = [], Size = 400, MsgNum = 4\<rparr>,
                \<lparr>Email = [], Size = 300, MsgNum = 3\<rparr>],
               Some (ClientError ''no such message''))"
    by code_simp
  with run have "list = [\<lparr>Email = hello, Size = 500, MsgNum = 5\<rparr>,
                         \<lparr>Email = [], Size = 400, MsgNum = 4\<rparr>,
                         \<lparr>Email = [], Size = 300, MsgNum = 3\<rparr>]"
    by simp
  with run g5 g4 show ?thesis by simp
qed

end
